theory Spec2Isabelle
  imports Main "HOL-Library.Sublist" "HOL-Library.AList"
begin

section \<open>Python strings\<close>

text \<open>
  A Python \<open>str\<close> is a sequence of code points; it is modelled as a \<open>string\<close>, one
  \<open>char\<close> per code point, for the code points below 256. On that range \<open>str.isspace\<close>
  (used by \<open>strip\<close>, \<open>split()\<close> and the pattern \<open>\s\<close>) holds for 9-13, 28-32, 133 and
  160; \<open>\d\<close> holds for the ASCII digits only; \<open>lower\<close> moves A-Z and the capital letters
  192-222 (without the multiplication sign 215) up by 32 and keeps the length.
\<close>

abbreviation nl :: char where
  "nl \<equiv> CHR 0x0A"

definition is_space :: "char \<Rightarrow> bool" where
  "is_space c =
     (let n = (of_char c :: nat)
      in (9 \<le> n \<and> n \<le> 13) \<or> (28 \<le> n \<and> n \<le> 32) \<or> n = 133 \<or> n = 160)"

definition is_digit :: "char \<Rightarrow> bool" where
  "is_digit c = (let n = (of_char c :: nat) in 48 \<le> n \<and> n \<le> 57)"

definition lower_char :: "char \<Rightarrow> char" where
  "lower_char c =
     (let n = (of_char c :: nat)
      in if (65 \<le> n \<and> n \<le> 90) \<or> (192 \<le> n \<and> n \<le> 222 \<and> n \<noteq> 215)
         then char_of (n + 32) else c)"

definition lower :: "string \<Rightarrow> string" where
  \<comment> \<open>\<open>s.lower()\<close>\<close>
  "lower s = map lower_char s"

definition strip :: "string \<Rightarrow> string" where
  \<comment> \<open>\<open>s.strip()\<close>: white space removed at both ends\<close>
  "strip s = rev (dropWhile is_space (rev (dropWhile is_space s)))"

definition rstrip :: "string \<Rightarrow> string" where
  \<comment> \<open>\<open>s.rstrip()\<close>: white space removed at the right end\<close>
  "rstrip s = rev (dropWhile is_space (rev s))"

primrec split_on :: "char \<Rightarrow> string \<Rightarrow> string list" where
  \<comment> \<open>\<open>s.split(d)\<close> for a one-character separator: empty pieces are kept, and the
      result is never empty\<close>
  "split_on d [] = [[]]"
| "split_on d (c # cs) =
     (let r = split_on d cs in if c = d then [] # r else (c # hd r) # tl r)"

function py_split :: "string \<Rightarrow> string list" where
  \<comment> \<open>\<open>s.split()\<close>: the maximal runs of characters that are not white space\<close>
  "py_split s =
     (let t = dropWhile is_space s
      in if t = [] then []
         else takeWhile (\<lambda>c. \<not> is_space c) t # py_split (dropWhile (\<lambda>c. \<not> is_space c) t))"
  by pat_completeness auto

definition is_sep :: "char \<Rightarrow> bool" where
  \<comment> \<open>the character class \<open>[,;|]\<close>\<close>
  "is_sep c = (c = CHR '','' \<or> c = CHR '';'' \<or> c = CHR ''|'')"

function re_split :: "string \<Rightarrow> string list" where
  \<comment> \<open>\<open>re.split(r'[,;|]+', s)\<close>: the pieces between maximal runs of separators; a
      run at either end leaves an empty piece there\<close>
  "re_split s =
     (case dropWhile (\<lambda>c. \<not> is_sep c) s of
        [] \<Rightarrow> [s]
      | _ # _ \<Rightarrow> takeWhile (\<lambda>c. \<not> is_sep c) s
                 # re_split (dropWhile is_sep (dropWhile (\<lambda>c. \<not> is_sep c) s)))"
  by pat_completeness auto

termination py_split
proof (relation "measure length")
  show "wf (measure length)" by simp
next
  fix s t :: string
  assume t: "t = dropWhile is_space s" and ne: "t \<noteq> []"
  from ne obtain c cs where cs: "t = c # cs"
    by (cases t) auto
  have "\<not> is_space (hd t)"
    using t ne hd_dropWhile [of is_space s] by simp
  then have "dropWhile (\<lambda>c. \<not> is_space c) t = dropWhile (\<lambda>c. \<not> is_space c) cs"
    using cs by simp
  then have "length (dropWhile (\<lambda>c. \<not> is_space c) t) \<le> length cs"
    by (simp add: length_dropWhile_le)
  also have "length cs < length t"
    using cs by simp
  also have "length t \<le> length s"
    using t by (simp add: length_dropWhile_le)
  finally show "(dropWhile (\<lambda>c. \<not> is_space c) t, s) \<in> measure length"
    by simp
qed

termination re_split
proof (relation "measure length")
  show "wf (measure length)" by simp
next
  fix s :: string and c cs
  assume d: "dropWhile (\<lambda>c. \<not> is_sep c) s = c # cs"
  have "is_sep (hd (dropWhile (\<lambda>c. \<not> is_sep c) s))"
    using d hd_dropWhile [of "\<lambda>c. \<not> is_sep c" s] by simp
  then have "is_sep c"
    using d by simp
  then have "dropWhile is_sep (c # cs) = dropWhile is_sep cs"
    by simp
  then have "length (dropWhile is_sep (c # cs)) \<le> length cs"
    by (simp add: length_dropWhile_le)
  also have "length cs < length (dropWhile (\<lambda>c. \<not> is_sep c) s)"
    using d by simp
  also have "\<dots> \<le> length s"
    by (simp add: length_dropWhile_le)
  finally show "(dropWhile is_sep (dropWhile (\<lambda>c. \<not> is_sep c) s), s) \<in> measure length"
    using d by simp
qed

declare py_split.simps [simp del] re_split.simps [simp del]

section \<open>Response parser: titles\<close>

fun group_after_space :: "string \<Rightarrow> string option" where
  \<comment> \<open>the tail \<open>\s*(.+)\<close> of the title pattern, returning group 1: \<open>\s*\<close> takes white
      space greedily and gives it back one character at a time while \<open>(.+)\<close>, a
      non-empty run of characters other than the line feed, finds nothing\<close>
  "group_after_space [] = None"
| "group_after_space (c # cs) =
     (case (if is_space c then group_after_space cs else None) of
        Some g \<Rightarrow> Some g
      | None \<Rightarrow> if c = nl then None else Some (takeWhile (\<lambda>x. x \<noteq> nl) (c # cs)))"

definition match_numbered :: "string \<Rightarrow> string option" where
  \<comment> \<open>\<open>re.match(r'^\d+\.\s*(.+)', s)\<close>, returning group 1 of the match. \<open>\d+\<close> takes
      every leading digit: with fewer the next character is a digit, not the period\<close>
  "match_numbered s =
     (if takeWhile is_digit s = [] then None
      else case dropWhile is_digit s of
             [] \<Rightarrow> None
           | c # r \<Rightarrow> if c = CHR ''.'' then group_after_space r else None)"

definition paren_match :: "string \<Rightarrow> string option" where
  \<comment> \<open>the pattern \<open>\s*\([^)]*\)$\<close> tried at the start of \<open>s\<close>; the result is what follows
      the match: nothing, or the one line feed that \<open>$\<close> allows at the very end\<close>
  "paren_match s =
     (case dropWhile is_space s of
        [] \<Rightarrow> None
      | c # r \<Rightarrow>
          if c \<noteq> CHR ''('' then None
          else case dropWhile (\<lambda>x. x \<noteq> CHR '')'') r of
                 [] \<Rightarrow> None
               | _ # e \<Rightarrow> if e = [] \<or> e = [nl] then Some e else None)"

fun sub_paren :: "string \<Rightarrow> string" where
  \<comment> \<open>\<open>re.sub(r'\s*\([^)]*\)$', '', title)\<close>: the pattern is tried at each position
      from the left; the first match runs to the end of the string and is removed\<close>
  "sub_paren [] = []"
| "sub_paren (c # cs) =
     (case paren_match (c # cs) of
        Some e \<Rightarrow> e
      | None \<Rightarrow> c # sub_paren cs)"

definition numbered_line :: "string \<Rightarrow> bool" where
  \<comment> \<open>the numbered-line pattern in the words of the specification: optional leading
      white space, one or more digits, a period, optional white space, then text, of
      which at least one character is not white space\<close>
  "numbered_line line =
     (let s = dropWhile is_space line
      in takeWhile is_digit s \<noteq> []
         \<and> (case dropWhile is_digit s of
               [] \<Rightarrow> False
             | c # r \<Rightarrow> c = CHR ''.'' \<and> strip r \<noteq> []))"



fun titles_loop :: "string list \<Rightarrow> string list \<Rightarrow> string list" where
  \<comment> \<open>the loop over the lines, \<open>titles\<close> being the list built so far\<close>
  "titles_loop [] titles = titles"
| "titles_loop (line # lines) titles =
     (case match_numbered (strip line) of
        None \<Rightarrow> titles_loop lines titles
      | Some g \<Rightarrow> titles_loop lines (titles @ [sub_paren (strip g)]))"

definition extract_titles :: "string \<Rightarrow> string list" where
  "extract_titles response = take 8 (titles_loop (split_on nl response) [])"

section \<open>Prompt builder\<close>

definition create_title_prompt :: "string \<Rightarrow> string \<Rightarrow> string \<Rightarrow> string \<Rightarrow> string \<Rightarrow> string \<Rightarrow> string" where
  "create_title_prompt content video_type target_audience keywords tone style_preferences =
    ''As a YouTube SEO expert, generate 8 compelling, click-worthy titles for a '' @ video_type @ '' video targeting '' @ target_audience @ ''.\<newline>\<newline>'' @
    ''Content Summary: '' @ content @ ''\<newline>\<newline>'' @
    ''Requirements:\<newline>'' @
    ''- Primary Keywords: '' @ keywords @ ''\<newline>'' @
    ''- Tone: '' @ tone @ ''\<newline>'' @
    ''- Style Preferences: '' @ style_preferences @ ''\<newline>'' @
    ''- Character count: 40-70 characters\<newline>'' @
    ''- Include power words and emotional triggers\<newline>'' @
    ''- Ensure SEO optimization\<newline>'' @
    ''- Avoid clickbait but maintain curiosity\<newline>'' @
    ''- Include numbers where relevant\<newline>'' @
    ''- Consider trending formats\<newline>\<newline>'' @
    ''Provide exactly 8 titles, numbered 1-8, with brief explanations of why each title works.\<newline>''"

definition create_description_prompt :: "string \<Rightarrow> string \<Rightarrow> string \<Rightarrow> string \<Rightarrow> string \<Rightarrow> string \<Rightarrow> string" where
  "create_description_prompt content video_type target_audience keywords channel_info video_length =
    ''As a YouTube SEO specialist, write a comprehensive, SEO-optimized description for a '' @ video_type @ '' video targeting '' @ target_audience @ ''.\<newline>\<newline>'' @
    ''Video Summary: '' @ content @ ''\<newline>'' @
    ''Channel Information: '' @ channel_info @ ''\<newline>'' @
    ''Target Keywords: '' @ keywords @ ''\<newline>'' @
    ''Estimated Video Length: '' @ video_length @ ''\<newline>\<newline>'' @
    ''Structure the description with:\<newline>'' @
    ''1. Hook (first 125 characters - crucial for search results)\<newline>'' @
    ''2. Detailed video overview (200-300 words)\<newline>'' @
    ''3. Key timestamps (create realistic placeholders)\<newline>'' @
    ''4. Call-to-action section\<newline>'' @
    ''5. Social media links placeholder\<newline>'' @
    ''6. 5-8 relevant hashtags\<newline>'' @
    ''7. Additional resources/links section\<newline>\<newline>'' @
    ''Focus on:\<newline>'' @
    ''- SEO keyword integration\<newline>'' @
    ''- Engaging first paragraph\<newline>'' @
    ''- Clear value proposition\<newline>'' @
    ''- Community engagement elements\<newline>'' @
    ''- Accessibility considerations\<newline>''"

definition create_tags_prompt :: "string \<Rightarrow> string \<Rightarrow> string \<Rightarrow> string \<Rightarrow> string" where
  "create_tags_prompt content video_type keywords competitor_analysis =
    ''Generate 20 strategic YouTube tags for a '' @ video_type @ '' video to maximize discoverability.\<newline>\<newline>'' @
    ''Video Content: '' @ content @ ''\<newline>'' @
    ''Primary Keywords: '' @ keywords @ ''\<newline>'' @
    ''Competitor Insights: '' @ competitor_analysis @ ''\<newline>\<newline>'' @
    ''Provide tags in three categories:\<newline>'' @
    ''1. Primary tags (5-7): Main topic keywords\<newline>'' @
    ''2. Secondary tags (8-10): Related and long-tail keywords  \<newline>'' @
    ''3. Trending tags (5-7): Current trending topics in the niche\<newline>\<newline>'' @
    ''Format: Return as comma-separated list with category labels.\<newline>''"

definition create_thumbnail_prompt :: "string \<Rightarrow> string \<Rightarrow> string \<Rightarrow> string" where
  "create_thumbnail_prompt content video_type target_audience =
    ''Suggest 5 effective thumbnail concepts for a '' @ video_type @ '' video targeting '' @ target_audience @ ''.\<newline>\<newline>'' @
    ''Video Content: '' @ content @ ''\<newline>\<newline>'' @
    ''For each thumbnail concept, provide:\<newline>'' @
    ''1. Visual elements description\<newline>'' @
    ''2. Text overlay suggestions (max 6 words)\<newline>'' @
    ''3. Color scheme recommendations\<newline>'' @
    ''4. Emotional appeal strategy\<newline>'' @
    ''5. A/B testing variations\<newline>\<newline>'' @
    ''Focus on:\<newline>'' @
    ''- High contrast and readability\<newline>'' @
    ''- Emotional expressions if featuring people\<newline>'' @
    ''- Clear visual hierarchy\<newline>'' @
    ''- Mobile optimization\<newline>'' @
    ''- Brand consistency\<newline>''"

section \<open>Response parser: tags\<close>

datatype tag_section = Primary | Secondary | Trending

definition line_tags :: "string \<Rightarrow> string list" where
  \<comment> \<open>\<open>[tag.strip() for tag in re.split(r'[,;|]+', line) if tag.strip()]\<close>\<close>
  "line_tags line = map strip (filter (\<lambda>tag. strip tag \<noteq> []) (re_split line))"

fun scan_line ::
  "tag_section option \<times> string list \<times> string list \<times> string list \<Rightarrow> string
   \<Rightarrow> tag_section option \<times> string list \<times> string list \<times> string list" where
  \<comment> \<open>the body of the loop over the lines; Python's \<open>in\<close> on strings is \<open>sublist\<close>,
      and \<open>current_section\<close> is \<open>None\<close> or the name of a section\<close>
  "scan_line (current_section, primary, secondary, trending) line =
     (if sublist ''Primary tags:'' (lower line) then (Some Primary, primary, secondary, trending)
      else if sublist ''Secondary tags:'' (lower line) then (Some Secondary, primary, secondary, trending)
      else if sublist ''Trending tags:'' (lower line) then (Some Trending, primary, secondary, trending)
      else if current_section \<noteq> None \<and> strip line \<noteq> [] then
        (let tags = line_tags line
         in case current_section of
              Some Primary \<Rightarrow> (current_section, primary @ tags, secondary, trending)
            | Some Secondary \<Rightarrow> (current_section, primary, secondary @ tags, trending)
            | Some Trending \<Rightarrow> (current_section, primary, secondary, trending @ tags)
            | None \<Rightarrow> (current_section, primary, secondary, trending))
      else (current_section, primary, secondary, trending))"

definition extract_tags :: "string \<Rightarrow> (string \<times> string list) list" where
  \<comment> \<open>the returned dict, as the list of its items in insertion order\<close>
  "extract_tags response =
     (if sublist ''Primary tags:'' response \<or> sublist ''Secondary tags:'' response then
        (case foldl scan_line (None, [], [], []) (split_on nl response) of
           (current_section, primary, secondary, trending) \<Rightarrow>
             [(''primary'', take 7 primary),
              (''secondary'', take 10 secondary),
              (''trending'', take 7 trending),
              (''all'', take 20 (primary @ secondary @ trending))])
      else
        [(''all'', take 20 (map strip
            (filter (\<lambda>tag. 2 < length (strip tag) \<and> length (strip tag) < 30)
               (re_split response))))])"

definition dict_get :: "('k \<times> 'v) list \<Rightarrow> 'k \<Rightarrow> 'v \<Rightarrow> 'v" where
  \<comment> \<open>\<open>d.get(k, dflt)\<close>\<close>
  "dict_get d k dflt = (case map_of d k of None \<Rightarrow> dflt | Some v \<Rightarrow> v)"

section \<open>Content analyzer\<close>

record metrics =
  word_count :: nat
  char_count :: nat
  reading_time :: nat
  top_keywords :: "(string \<times> nat) list"

fun count_words :: "string list \<Rightarrow> (string \<times> nat) list \<Rightarrow> (string \<times> nat) list" where
  \<comment> \<open>the loop filling \<open>word_freq\<close>, a dict kept as the list of its items in insertion
      order: a new key goes to the end, a known key keeps its place\<close>
  "count_words [] word_freq = word_freq"
| "count_words (word # words) word_freq =
     (if length word > 3
      then count_words words (AList.update word (dict_get word_freq word 0 + 1) word_freq)
      else count_words words word_freq)"

definition sorted_reverse :: "('a \<Rightarrow> 'k::linorder) \<Rightarrow> 'a list \<Rightarrow> 'a list" where
  \<comment> \<open>\<open>sorted(xs, key=key, reverse=True)\<close>: the list is reversed, sorted by a stable
      ascending sort and reversed again, so that equal keys keep their order\<close>
  "sorted_reverse key xs = rev (sort_key key (rev xs))"

definition analyze_content_metrics :: "string \<Rightarrow> metrics" where
  "analyze_content_metrics content =
     (let word_count = length (py_split content);
          char_count = length content;
          estimated_reading_time = max 1 (word_count div 200);
          words = py_split (lower content);
          word_freq = count_words words [];
          top_keywords = take 10 (sorted_reverse snd word_freq)
      in \<lparr>word_count = word_count, char_count = char_count,
          reading_time = estimated_reading_time, top_keywords = top_keywords\<rparr>)"

section \<open>Generation client\<close>

text \<open>
  The endpoint is outside the program. One call of \<open>model.generate_content(prompt)\<close>
  followed by \<open>response.text\<close> either gives a text or raises an exception, of which
  only the description \<open>str(e)\<close> is used. What the endpoint answers may depend on
  everything that happened before, which is recorded in a log of requests and sleeps.
\<close>

datatype outcome = Text string | Raises string

datatype event = Request string | Sleep nat

type_synonym endpoint = "event list \<Rightarrow> string \<Rightarrow> outcome"

function digits_of :: "nat \<Rightarrow> string" where
  "digits_of n =
     (if n < 10 then [char_of (48 + n)] else digits_of (n div 10) @ [char_of (48 + n mod 10)])"
  by pat_completeness auto

termination digits_of
  by (relation "measure id") auto

declare digits_of.simps [simp del]

definition str_int :: "int \<Rightarrow> string" where
  \<comment> \<open>the decimal text an f-string writes for an \<open>int\<close>\<close>
  "str_int i = (if i < 0 then CHR ''-'' # digits_of (nat (- i)) else digits_of (nat i))"

definition py_range :: "int \<Rightarrow> int list" where
  \<comment> \<open>\<open>range(n)\<close>, empty when \<open>n\<close> is not positive\<close>
  "py_range n = map int [0..<nat n]"

fun retry_loop ::
  "endpoint \<Rightarrow> string \<Rightarrow> int \<Rightarrow> int list \<Rightarrow> event list \<Rightarrow> string option \<times> event list" where
  \<comment> \<open>the \<open>for\<close> loop over the attempts that are left; falling out of the loop is the
      implicit \<open>return None\<close>\<close>
  "retry_loop model prompt max_retries [] log = (None, log)"
| "retry_loop model prompt max_retries (attempt # attempts) log =
     (case model log prompt of
        Text t \<Rightarrow> (Some (strip t), log @ [Request prompt])
      | Raises e \<Rightarrow>
          if attempt = max_retries - 1
          then (Some (''Error: Unable to generate content after '' @ str_int max_retries
                        @ '' attempts. '' @ e),
                log @ [Request prompt])
          else retry_loop model prompt max_retries attempts (log @ [Request prompt, Sleep 1]))"

definition call_gemini_with_retry ::
  "endpoint \<Rightarrow> string \<Rightarrow> int \<Rightarrow> event list \<Rightarrow> string option \<times> event list" where
  "call_gemini_with_retry model prompt max_retries log =
     retry_loop model prompt max_retries (py_range max_retries) log"

section \<open>Session state\<close>

record history_entry =
  h_timestamp :: string
  h_video_type :: string
  h_keywords :: string
  h_titles :: nat
  h_description :: bool
  h_tags :: nat
  h_thumbnails :: bool

record session_state =
  titles :: "string list"
  description :: string
  tags :: "(string \<times> string list) list"
  thumbnail_concepts :: string
  generation_history :: "history_entry list"
  content_metrics :: "metrics option"
  selected_title :: string
  custom_tags :: "string list"
  export_data :: "(string \<times> string) list"

definition initialize_session_state :: session_state where
  \<comment> \<open>the defaults of a new session; an empty dict of metrics is \<open>None\<close>\<close>
  "initialize_session_state =
     \<lparr>titles = [], description = [], tags = [], thumbnail_concepts = [],
      generation_history = [], content_metrics = None, selected_title = [],
      custom_tags = [], export_data = []\<rparr>"

definition clear_all_results :: "session_state \<Rightarrow> session_state" where
  \<comment> \<open>the button "Clear All Results": the loop over its six keys\<close>
  "clear_all_results st =
     st\<lparr>titles := [], description := [], tags := [], thumbnail_concepts := [],
        content_metrics := None, selected_title := []\<rparr>"

section \<open>Orchestrator\<close>

record sidebar =
  max_titles :: int
  include_analytics :: bool
  save_history :: bool

record form =
  video_script :: string
  video_type :: string
  target_audience :: string
  "keywords" :: string
  tone :: string
  style_preferences :: string
  channel_info :: string
  competitor_analysis :: string
  video_length :: string
  generate_titles :: bool
  generate_desc :: bool
  generate_tags :: bool
  generate_thumb :: bool

datatype banner = Validation_error string | Generation_error | Success

type_synonym run_state = "session_state \<times> event list"

text \<open>
  The steps of a run are inside one \<open>try\<close>. A step that raises ends the run with the
  state as it then is (\<open>Inl\<close>). The client is called with its default of three
  attempts, which always gives a string (lemma \<open>call_gemini_default_returns\<close>); the
  case of \<open>None\<close>, on which the parsers would raise, ends the run in the model and
  never arises. The progress bar, the status text and the pause before they are
  cleared are display only and are left out.
\<close>

definition titles_step :: "endpoint \<Rightarrow> form \<Rightarrow> run_state \<Rightarrow> run_state + run_state" where
  "titles_step model f s =
     (case s of (st, log) \<Rightarrow>
        if generate_titles f then
          (let prompt = create_title_prompt (video_script f) (video_type f) (target_audience f)
                          (keywords f) (tone f) (style_preferences f)
           in case call_gemini_with_retry model prompt 3 log of
                (Some response, log') \<Rightarrow> Inr (st\<lparr>titles := extract_titles response\<rparr>, log')
              | (None, log') \<Rightarrow> Inl (st, log'))
        else Inr (st, log))"

definition description_step :: "endpoint \<Rightarrow> form \<Rightarrow> run_state \<Rightarrow> run_state + run_state" where
  "description_step model f s =
     (case s of (st, log) \<Rightarrow>
        if generate_desc f then
          (let prompt = create_description_prompt (video_script f) (video_type f)
                          (target_audience f) (keywords f) (channel_info f) (video_length f)
           in case call_gemini_with_retry model prompt 3 log of
                (Some response, log') \<Rightarrow> Inr (st\<lparr>description := response\<rparr>, log')
              | (None, log') \<Rightarrow> Inl (st, log'))
        else Inr (st, log))"

definition tags_step :: "endpoint \<Rightarrow> form \<Rightarrow> run_state \<Rightarrow> run_state + run_state" where
  "tags_step model f s =
     (case s of (st, log) \<Rightarrow>
        if generate_tags f then
          (let prompt = create_tags_prompt (video_script f) (video_type f) (keywords f)
                          (competitor_analysis f)
           in case call_gemini_with_retry model prompt 3 log of
                (Some response, log') \<Rightarrow> Inr (st\<lparr>tags := extract_tags response\<rparr>, log')
              | (None, log') \<Rightarrow> Inl (st, log'))
        else Inr (st, log))"

definition thumbnail_step :: "endpoint \<Rightarrow> form \<Rightarrow> run_state \<Rightarrow> run_state + run_state" where
  "thumbnail_step model f s =
     (case s of (st, log) \<Rightarrow>
        if generate_thumb f then
          (let prompt = create_thumbnail_prompt (video_script f) (video_type f)
                          (target_audience f)
           in case call_gemini_with_retry model prompt 3 log of
                (Some response, log') \<Rightarrow> Inr (st\<lparr>thumbnail_concepts := response\<rparr>, log')
              | (None, log') \<Rightarrow> Inl (st, log'))
        else Inr (st, log))"

definition and_then ::
  "run_state + run_state \<Rightarrow> (run_state \<Rightarrow> run_state + run_state) \<Rightarrow> run_state + run_state" where
  "and_then r step = (case r of Inl s \<Rightarrow> Inl s | Inr s \<Rightarrow> step s)"

definition history_step :: "string \<Rightarrow> sidebar \<Rightarrow> form \<Rightarrow> session_state \<Rightarrow> session_state" where
  \<comment> \<open>\<open>now\<close> is the text of \<open>datetime.now().isoformat()\<close>\<close>
  "history_step now sb f st =
     (if save_history sb then
        st\<lparr>generation_history := generation_history st @
             [\<lparr>h_timestamp = now, h_video_type = video_type f, h_keywords = keywords f,
               h_titles = length (titles st),
               h_description = (description st \<noteq> []),
               h_tags = length (dict_get (tags st) ''all'' []),
               h_thumbnails = (thumbnail_concepts st \<noteq> [])\<rparr>]\<rparr>
      else st)"

definition generate_content ::
  "endpoint \<Rightarrow> string \<Rightarrow> sidebar \<Rightarrow> form \<Rightarrow> run_state \<Rightarrow> banner \<times> run_state" where
  \<comment> \<open>the button "Generate Content"\<close>
  "generate_content model now sb f s =
     (case s of (st, log) \<Rightarrow>
        if strip (video_script f) = [] then
          (Validation_error ''Please provide the video script or summary.'', (st, log))
        else
          (let st1 = (if include_analytics sb
                      then st\<lparr>content_metrics := Some (analyze_content_metrics (video_script f))\<rparr>
                      else st)
           in case and_then (and_then (and_then (titles_step model f (st1, log))
                      (description_step model f)) (tags_step model f)) (thumbnail_step model f) of
                Inr (st2, log2) \<Rightarrow> (Success, (history_step now sb f st2, log2))
              | Inl (st2, log2) \<Rightarrow> (Generation_error, (st2, log2))))"

section \<open>Notions of the specification\<close>

text \<open>
  The words in which the specification states what the tag parser and the content
  analyzer do: the pieces of a string between separators, and the order of first
  encounter.
\<close>

fun weave :: "string list \<Rightarrow> string list \<Rightarrow> string" where
  \<comment> \<open>the pieces of a string put together again, with a run of separators between
      each two neighbours\<close>
  "weave [] seps = []"
| "weave [p] seps = p"
| "weave (p # q # ps) [] = p"
| "weave (p # q # ps) (s # seps) = p @ s @ weave (q # ps) seps"

definition first_index :: "'a list \<Rightarrow> 'a \<Rightarrow> nat" where
  \<comment> \<open>the position at which a word is first met\<close>
  "first_index xs x = length (takeWhile (\<lambda>y. y \<noteq> x) xs)"

fun first_seen :: "'a list \<Rightarrow> 'a list" where
  \<comment> \<open>the distinct words of a list in the order in which they are first met\<close>
  "first_seen [] = []"
| "first_seen (x # xs) = x # removeAll x (first_seen xs)"

section \<open>Example inputs\<close>

definition blank_form :: form where
  "blank_form =
     \<lparr>video_script = [CHR '' '', nl, CHR 0x09], video_type = ''Tutorial'',
      target_audience = ''Beginners'', keywords = ''isabelle'', tone = ''Casual'',
      style_preferences = [], channel_info = [], competitor_analysis = [],
      video_length = ''5-10 minutes'', generate_titles = True, generate_desc = True,
      generate_tags = True, generate_thumb = True\<rparr>"

definition history_only_form :: form where
  "history_only_form =
     \<lparr>video_script = ''How to bake bread'', video_type = ''Tutorial'',
      target_audience = ''Beginners'', keywords = ''bread'', tone = ''Casual'',
      style_preferences = [], channel_info = [], competitor_analysis = [],
      video_length = ''5-10 minutes'', generate_titles = False, generate_desc = False,
      generate_tags = False, generate_thumb = False\<rparr>"

definition eight_titles_response :: string where
  "eight_titles_response =
     ''1. One\<newline>2. Two\<newline>3. Three\<newline>4. Four\<newline>5. Five\<newline>6. Six\<newline>7. Seven\<newline>8. Eight''"

definition titles_only_form :: form where
  "titles_only_form =
     \<lparr>video_script = ''How to bake bread'', video_type = ''Tutorial'',
      target_audience = ''Beginners'', keywords = ''bread'', tone = ''Casual'',
      style_preferences = [], channel_info = [], competitor_analysis = [],
      video_length = ''5-10 minutes'', generate_titles = True, generate_desc = False,
      generate_tags = False, generate_thumb = False\<rparr>"


definition spec_tags_response :: string where
  "spec_tags_response =
     ''Primary tags: a, b\<newline>Secondary tags: c\<newline>Trending tags: d, e''"

definition section_tags_response :: string where
  "section_tags_response =
     ''Primary tags:\<newline>a, b\<newline>Secondary tags:\<newline>c\<newline>Trending tags:\<newline>d, e''"


definition plain_tags_response :: string where
  "plain_tags_response =
     ''go, x, validtagname; yz | abc ,, aaaaaaaaaaaaaaaaaaaaaaaaaaaaa, bbbbbbbbbbbbbbbbbbbbbbbbbbbbbb''"

definition keyword_sample :: string where
  "keyword_sample = ''The quick brown Quick fox jumps over over OVER lazy dogs dogs''"

section \<open>Properties of the generation client\<close>

lemma retry_loop_all_fail:
  assumes fails: "\<And>l p. \<exists>e. model l p = Raises e"
  shows "k < n \<Longrightarrow> d = n - Suc k \<Longrightarrow>
     \<exists>e. retry_loop model prompt (int n) (map int [k..<n]) log =
           (Some (''Error: Unable to generate content after '' @ str_int (int n)
                    @ '' attempts. '' @ e),
            log @ concat (replicate d [Request prompt, Sleep 1]) @ [Request prompt])
         \<and> model (log @ concat (replicate d [Request prompt, Sleep 1])) prompt = Raises e"
proof (induction d arbitrary: k log)
  case 0
  then have k: "Suc k = n" by simp
  then have upt: "[k..<n] = [k]" by auto
  obtain e where e: "model log prompt = Raises e"
    using fails by blast
  have "int k = int n - 1" using k by simp
  then show ?case
    using e upt by simp
next
  case (Suc d)
  then have lt: "Suc k < n" and d: "d = n - Suc (Suc k)" by simp_all
  have upt: "[k..<n] = k # [Suc k..<n]"
    using Suc.prems(1) by (simp add: upt_conv_Cons)
  obtain e0 where e0: "model log prompt = Raises e0"
    using fails by blast
  have ne: "int k \<noteq> int n - 1" using lt by simp
  from Suc.IH [OF lt d, of "log @ [Request prompt, Sleep 1]"]
  obtain e where e:
    "retry_loop model prompt (int n) (map int [Suc k..<n]) (log @ [Request prompt, Sleep 1]) =
       (Some (''Error: Unable to generate content after '' @ str_int (int n)
                @ '' attempts. '' @ e),
        (log @ [Request prompt, Sleep 1]) @ concat (replicate d [Request prompt, Sleep 1])
          @ [Request prompt])
     \<and> model ((log @ [Request prompt, Sleep 1]) @ concat (replicate d [Request prompt, Sleep 1]))
          prompt = Raises e"
    by blast
  show ?case
    using e e0 ne upt by (intro exI [of _ e]) simp
qed

text \<open>
  Claim C4, as stated for every \<open>max_retries\<close>, fails at \<open>max_retries = 0\<close>: the loop
  body never runs and the call gives \<open>None\<close>, not a string that starts with "Error:".
\<close>

theorem call_gemini_zero_retries_counterexample:
  "\<not> (\<exists>r. fst (call_gemini_with_retry (\<lambda>l p. Raises ''unreachable host'') ''prompt'' 0 [])
            = Some r \<and> prefix ''Error:'' r)"
  by (simp add: call_gemini_with_retry_def py_range_def)

text \<open>
  Claim C4, amended: for \<open>max_retries\<close> of at least one and an endpoint whose every attempt
  fails, \<open>call_gemini_with_retry\<close> returns a string (it has no raising path). The log
  grows by \<open>max_retries - 1\<close> pairs of a request and a sleep of one unit, then one last
  request: exactly \<open>max_retries\<close> attempts, a delay of one between consecutive ones and
  none after the last. The string is "Error: Unable to generate content after N
  attempts. E", where N is \<open>max_retries\<close> in decimal and E the description of the error
  of the last attempt; so it starts with "Error:" and contains both.
\<close>

theorem call_gemini_all_attempts_fail:
  assumes "1 \<le> max_retries" and "\<forall>l p. \<exists>e. model l p = Raises e"
  shows "\<exists>e r log'.
           call_gemini_with_retry model prompt max_retries log = (Some r, log')
         \<and> log' = log @ concat (replicate (nat max_retries - 1) [Request prompt, Sleep 1])
                      @ [Request prompt]
         \<and> int (count_list (drop (length log) log') (Request prompt)) = max_retries
         \<and> model (butlast log') prompt = Raises e
         \<and> r = ''Error: Unable to generate content after '' @ str_int max_retries
                  @ '' attempts. '' @ e
         \<and> prefix ''Error:'' r \<and> sublist (str_int max_retries) r \<and> sublist e r"
proof -
  let ?n = "nat max_retries"
  have n: "int ?n = max_retries" "0 < ?n"
    using assms(1) by simp_all
  have fails: "\<And>l p. \<exists>e. model l p = Raises e"
    using assms(2) by blast
  from retry_loop_all_fail [of model 0 ?n "?n - Suc 0" prompt log, OF fails] n
  obtain e where e:
    "retry_loop model prompt max_retries (map int [0..<?n]) log =
       (Some (''Error: Unable to generate content after '' @ str_int max_retries
                @ '' attempts. '' @ e),
        log @ concat (replicate (?n - 1) [Request prompt, Sleep 1]) @ [Request prompt])"
    "model (log @ concat (replicate (?n - 1) [Request prompt, Sleep 1])) prompt = Raises e"
    by auto
  let ?r = "''Error: Unable to generate content after '' @ str_int max_retries
              @ '' attempts. '' @ e"
  let ?log = "log @ concat (replicate (?n - 1) [Request prompt, Sleep 1]) @ [Request prompt]"
  have cnt: "count_list (concat (replicate m [Request prompt, Sleep j])) (Request prompt) = m"
    for m j
    by (induction m) simp_all
  have c: "int (count_list (drop (length log) ?log) (Request prompt)) = max_retries"
    using n by (simp add: cnt)
  have b: "butlast ?log = log @ concat (replicate (?n - 1) [Request prompt, Sleep 1])"
    by (simp add: butlast_append)
  have p: "prefix ''Error:'' ?r"
    by simp
  have s1: "sublist (str_int max_retries) ?r"
    by (rule sublist_appendI)
  have s2: "sublist e ?r"
    using sublist_appendI [of e "''Error: Unable to generate content after ''
        @ str_int max_retries @ '' attempts. ''" "[]"]
    by simp
  show ?thesis
    unfolding call_gemini_with_retry_def py_range_def
    using e c b p s1 s2 by (intro exI [of _ e] exI [of _ ?r] exI [of _ ?log]) simp
qed

theorem call_gemini_all_attempts_fail_witness:
  "(1::int) \<le> 3 \<and> (\<forall>l p. \<exists>e. (\<lambda>l p. Raises ''quota exceeded'') l p = Raises e)
   \<and> call_gemini_with_retry (\<lambda>l p. Raises ''quota exceeded'') ''prompt'' 3 [] =
       (Some ''Error: Unable to generate content after 3 attempts. quota exceeded'',
        [Request ''prompt'', Sleep 1, Request ''prompt'', Sleep 1, Request ''prompt''])"
proof -
  have h1: "(1::int) \<le> 3" by simp
  have h2: "\<forall>l p. \<exists>e. (\<lambda>l p. Raises ''quota exceeded'') l p = Raises e" by simp
  have d: "str_int 3 = ''3''"
    by code_simp
  have n: "replicate 2 x = [x, x]" for x :: "event list"
    by (simp add: numeral_2_eq_2)
  show ?thesis
    using call_gemini_all_attempts_fail [OF h1 h2, of "''prompt''" "[]"]
    by (auto simp add: d n)
qed

text \<open>
  Claim C9: for \<open>max_retries = 0\<close> and every other non-positive value,
  \<open>call_gemini_with_retry\<close> returns \<open>None\<close>, not a string, and the log is unchanged: the
  endpoint is not contacted and nothing sleeps.
\<close>

theorem call_gemini_nonpositive_retries:
  "max_retries \<le> 0 \<Longrightarrow> call_gemini_with_retry model prompt max_retries log = (None, log)"
  by (simp add: call_gemini_with_retry_def py_range_def)

theorem call_gemini_nonpositive_retries_witness:
  "(0::int) \<le> 0 \<and> call_gemini_with_retry (\<lambda>l p. Text ''ok'') ''prompt'' 0 [] = (None, [])"
  using call_gemini_nonpositive_retries [of 0 "\<lambda>l p. Text ''ok''" "''prompt''" "[]"] by simp

section \<open>Properties of the session state and the orchestrator\<close>

lemma strip_blank: "(\<forall>c\<in>set s. is_space c) \<Longrightarrow> strip s = []"
proof -
  assume "\<forall>c\<in>set s. is_space c"
  then have d: "dropWhile is_space s = []"
    by (simp add: dropWhile_eq_Nil_conv)
  show ?thesis
    by (simp only: strip_def d rev.simps dropWhile.simps)
qed

text \<open>
  Claim C7: when the script is empty or holds white space only, "Generate Content"
  signals the validation error and returns the session state and the log as they
  were: no field is written, and no request reaches the endpoint.
\<close>

theorem generate_content_rejects_blank_script:
  assumes "\<forall>c\<in>set (video_script f). is_space c"
  shows "generate_content model now sb f (st, log) =
           (Validation_error ''Please provide the video script or summary.'', (st, log))"
  using assms by (simp add: generate_content_def strip_blank)

theorem generate_content_rejects_blank_script_witness:
  "list_all is_space (video_script blank_form)
   \<and> generate_content (\<lambda>l p. Text ''1. A title'') ''2024-05-01T10:00:00''
        \<lparr>max_titles = 8, include_analytics = True, save_history = True\<rparr> blank_form
        (initialize_session_state\<lparr>titles := [''kept'']\<rparr>, [Sleep 5])
     = (Validation_error ''Please provide the video script or summary.'',
        (initialize_session_state\<lparr>titles := [''kept'']\<rparr>, [Sleep 5]))"
proof -
  have h: "\<forall>c\<in>set (video_script blank_form). is_space c"
    by (simp add: blank_form_def is_space_def)
  show ?thesis
    using h generate_content_rejects_blank_script [OF h] by (simp add: list_all_iff)
qed

text \<open>
  Claim C3, as stated, fails: "Clear All Results" does not reset the generation
  history. After one run that only saves a history entry, the cleared state still
  holds that entry.
\<close>

theorem clear_keeps_history_counterexample:
  "generation_history (clear_all_results (fst (snd
      (generate_content (\<lambda>l p. Raises ''offline'') ''2024-05-01T10:00:00''
         \<lparr>max_titles = 8, include_analytics = False, save_history = True\<rparr>
         history_only_form (initialize_session_state, [])))))
   \<noteq> generation_history initialize_session_state"
  by (simp add: generate_content_def history_only_form_def strip_def is_space_def
      titles_step_def description_step_def tags_step_def thumbnail_step_def and_then_def
      history_step_def clear_all_results_def initialize_session_state_def)

text \<open>
  Claim C3, amended: whatever the state holds, "Clear All Results" sets the titles
  to the empty list, the tags and the content metrics to the empty dict, and the
  description, the thumbnail concepts and the selected title to the empty string;
  the generation history, the custom tags and the export data are left as they are.
\<close>

theorem clear_all_results_fields:
  "titles (clear_all_results st) = []
   \<and> description (clear_all_results st) = []
   \<and> tags (clear_all_results st) = []
   \<and> thumbnail_concepts (clear_all_results st) = []
   \<and> content_metrics (clear_all_results st) = None
   \<and> selected_title (clear_all_results st) = []
   \<and> generation_history (clear_all_results st) = generation_history st
   \<and> custom_tags (clear_all_results st) = custom_tags st
   \<and> export_data (clear_all_results st) = export_data st"
  by (simp add: clear_all_results_def)

text \<open>
  Claim C2 does not hold of the code: the setting \<open>max_titles\<close> is read from the slider
  and never used. With the setting at 3 and a response of eight numbered lines, the
  run stores eight titles.
\<close>

theorem stored_titles_exceed_max_titles:
  "length (titles (fst (snd
      (generate_content (\<lambda>l p. Text eight_titles_response) ''2024-05-01T10:00:00''
         \<lparr>max_titles = 3, include_analytics = False, save_history = False\<rparr>
         titles_only_form (initialize_session_state, []))))) = 8
   \<and> \<not> 8 \<le> max_titles \<lparr>max_titles = 3, include_analytics = False, save_history = False\<rparr>"
  by code_simp

section \<open>Properties of the title parser\<close>

lemma strip_rstrip: "strip s = rstrip (dropWhile is_space s)"
  by (simp add: strip_def rstrip_def)

lemma rstrip_append:
  "rstrip (xs @ ys) = (if \<forall>y\<in>set ys. is_space y then rstrip xs else xs @ rstrip ys)"
  by (simp add: rstrip_def dropWhile_append)

lemma rstrip_Cons:
  "rstrip (c # cs) = (if is_space c \<and> (\<forall>y\<in>set cs. is_space y) then [] else c # rstrip cs)"
  using rstrip_append [of "[c]" cs] by (auto simp add: rstrip_def)

lemma rstrip_Nil_iff: "rstrip s = [] \<longleftrightarrow> (\<forall>c\<in>set s. is_space c)"
  by (simp add: rstrip_def dropWhile_eq_Nil_conv)

lemma rstrip_last: "rstrip s \<noteq> [] \<Longrightarrow> \<not> is_space (last (rstrip s))"
proof -
  assume "rstrip s \<noteq> []"
  then have ne: "dropWhile is_space (rev s) \<noteq> []"
    by (simp add: rstrip_def)
  have "last (rstrip s) = hd (dropWhile is_space (rev s))"
    using ne by (simp add: rstrip_def last_rev)
  then show ?thesis
    using ne hd_dropWhile [of is_space "rev s"] by simp
qed



lemma lstrip_rstrip: "dropWhile is_space (rstrip s) = rstrip (dropWhile is_space s)"
proof (induction s)
  case Nil
  show ?case by (simp add: rstrip_def)
next
  case (Cons c cs)
  show ?case
  proof (cases "is_space c")
    case True
    show ?thesis
    proof (cases "\<forall>y\<in>set cs. is_space y")
      case True
      then have "rstrip (dropWhile is_space cs) = []"
        using set_dropWhileD [of _ is_space cs] by (auto simp add: rstrip_Nil_iff)
      then show ?thesis
        using True \<open>is_space c\<close> by (simp add: rstrip_Cons)
    next
      case False
      then show ?thesis
        using Cons \<open>is_space c\<close> by (auto simp add: rstrip_Cons)
    qed
  next
    case False
    then show ?thesis
      by (simp add: rstrip_Cons)
  qed
qed

lemma strip_Nil_iff: "strip s = [] \<longleftrightarrow> (\<forall>c\<in>set s. is_space c)"
proof -
  have "strip s = dropWhile is_space (rstrip s)"
    by (simp add: strip_rstrip lstrip_rstrip)
  then have "strip s = [] \<longleftrightarrow> (\<forall>c\<in>set (rstrip s). is_space c)"
    by (simp add: dropWhile_eq_Nil_conv)
  also have "\<dots> \<longleftrightarrow> rstrip s = []"
  proof
    assume a: "\<forall>c\<in>set (rstrip s). is_space c"
    show "rstrip s = []"
    proof (rule ccontr)
      assume ne: "rstrip s \<noteq> []"
      then have "last (rstrip s) \<in> set (rstrip s)" by simp
      then show False using a rstrip_last [OF ne] by blast
    qed
  qed simp
  finally show ?thesis
    by (simp add: rstrip_Nil_iff)
qed

lemma strip_idem: "strip (strip s) = strip s"
proof (cases "strip s = []")
  case True
  show ?thesis unfolding True by (simp add: strip_def)
next
  case False
  let ?t = "dropWhile is_space s"
  have st: "strip s = rstrip ?t" by (rule strip_rstrip)
  have ne: "rstrip ?t \<noteq> []" using False st by simp
  have "rstrip [] = []" by (simp add: rstrip_def)
  with ne have tne: "?t \<noteq> []" by metis
  then have h: "\<not> is_space (hd ?t)"
    using hd_dropWhile [of is_space s] by simp
  obtain c cs where t: "?t = c # cs" using tne by (cases ?t) auto
  have c: "\<not> is_space c" using h t by simp
  have r: "rstrip ?t = c # rstrip cs"
    using c t by (simp add: rstrip_Cons)
  have "dropWhile is_space (rstrip ?t) = rstrip ?t"
    using r c by simp
  moreover have "rstrip (rstrip ?t) = rstrip ?t"
  proof -
    have "\<not> is_space (hd (dropWhile is_space (rev ?t)))"
      using ne hd_dropWhile [of is_space "rev ?t"] by (simp add: rstrip_def)
    then have "dropWhile is_space (dropWhile is_space (rev ?t)) = dropWhile is_space (rev ?t)"
      using ne by (cases "dropWhile is_space (rev ?t)") (simp_all add: rstrip_def)
    then show ?thesis by (simp add: rstrip_def)
  qed
  ultimately show ?thesis
    by (simp add: strip_rstrip)
qed


lemma not_space_digit: "is_digit c \<Longrightarrow> \<not> is_space c"
  by (auto simp add: is_digit_def is_space_def Let_def)

lemma not_space_period: "\<not> is_space (CHR ''.'')" "\<not> is_digit (CHR ''.'')"
  by (simp_all add: is_space_def is_digit_def)
















lemma numbered_line_iff:
  "numbered_line line \<longleftrightarrow>
     (\<exists>ws ds ws' body. line = ws @ ds @ ''.'' @ ws' @ body
        \<and> (\<forall>c\<in>set ws. is_space c) \<and> ds \<noteq> [] \<and> (\<forall>c\<in>set ds. is_digit c)
        \<and> (\<forall>c\<in>set ws'. is_space c) \<and> (\<exists>c\<in>set body. \<not> is_space c))"
proof
  assume n: "numbered_line line"
  let ?s = "dropWhile is_space line"
  from n have ds: "takeWhile is_digit ?s \<noteq> []"
    by (simp add: numbered_line_def Let_def)
  from n obtain r where r: "dropWhile is_digit ?s = CHR ''.'' # r" "strip r \<noteq> []"
    by (auto simp add: numbered_line_def Let_def split: list.splits)
  have "line = takeWhile is_space line @ ?s" by simp
  also have "?s = takeWhile is_digit ?s @ dropWhile is_digit ?s" by simp
  finally have "line = takeWhile is_space line @ takeWhile is_digit ?s @ ''.'' @ [] @ r"
    using r(1) by simp
  moreover have "\<forall>c\<in>set (takeWhile is_space line). is_space c"
    using set_takeWhileD [of _ is_space line] by blast
  moreover have "\<forall>c\<in>set (takeWhile is_digit ?s). is_digit c"
    using set_takeWhileD [of _ is_digit ?s] by blast
  moreover have "\<exists>c\<in>set r. \<not> is_space c"
    using r(2) by (simp add: strip_Nil_iff)
  ultimately show "\<exists>ws ds ws' body. line = ws @ ds @ ''.'' @ ws' @ body
        \<and> (\<forall>c\<in>set ws. is_space c) \<and> ds \<noteq> [] \<and> (\<forall>c\<in>set ds. is_digit c)
        \<and> (\<forall>c\<in>set ws'. is_space c) \<and> (\<exists>c\<in>set body. \<not> is_space c)"
    using ds by (metis empty_iff list.set(1))
next
  assume "\<exists>ws ds ws' body. line = ws @ ds @ ''.'' @ ws' @ body
        \<and> (\<forall>c\<in>set ws. is_space c) \<and> ds \<noteq> [] \<and> (\<forall>c\<in>set ds. is_digit c)
        \<and> (\<forall>c\<in>set ws'. is_space c) \<and> (\<exists>c\<in>set body. \<not> is_space c)"
  then obtain ws ds ws' body where l: "line = ws @ ds @ ''.'' @ ws' @ body"
    and ws: "\<forall>c\<in>set ws. is_space c" and ds: "ds \<noteq> []" "\<forall>c\<in>set ds. is_digit c"
    and body: "\<exists>c\<in>set body. \<not> is_space c"
    by blast
  obtain d ds' where d: "ds = d # ds'" using ds(1) by (cases ds) auto
  have dns: "\<not> is_space d" using ds(2) d not_space_digit by simp
  have "dropWhile is_space line = dropWhile is_space (ds @ ''.'' @ ws' @ body)"
    unfolding l by (rule dropWhile_append2) (use ws in blast)
  also have "\<dots> = ds @ ''.'' @ ws' @ body"
    using dns d by simp
  finally have s: "dropWhile is_space line = ds @ CHR ''.'' # (ws' @ body)" by simp
  have tw: "takeWhile is_digit (ds @ CHR ''.'' # (ws' @ body)) = ds"
    using ds(2) not_space_period by (simp add: takeWhile_append2)
  have dw: "dropWhile is_digit (ds @ CHR ''.'' # (ws' @ body)) = CHR ''.'' # (ws' @ body)"
    using ds(2) not_space_period by (simp add: dropWhile_append2)
  have "strip (ws' @ body) \<noteq> []"
    using body by (auto simp add: strip_Nil_iff)
  then show "numbered_line line"
    unfolding numbered_line_def Let_def s tw dw using ds(1) by simp
qed




section \<open>Properties of the tag parser\<close>

lemma lower_char_not_capital:
  "lower_char c \<noteq> CHR ''P'' \<and> lower_char c \<noteq> CHR ''S'' \<and> lower_char c \<noteq> CHR ''T''"
proof -
  let ?n = "of_char c :: nat"
  show ?thesis
  proof (cases "(65 \<le> ?n \<and> ?n \<le> 90) \<or> (192 \<le> ?n \<and> ?n \<le> 222 \<and> ?n \<noteq> 215)")
    case True
    then have l: "lower_char c = char_of (?n + 32)"
      by (simp add: lower_char_def Let_def)
    have "?n + 32 < 256"
      using True by auto
    then have "(of_char (char_of (?n + 32)) :: nat) = ?n + 32"
      by (simp add: of_char_of)
    then have "97 \<le> (of_char (lower_char c) :: nat)"
      using True l by auto
    then show ?thesis by auto
  next
    case False
    then have l: "lower_char c = c"
      unfolding lower_char_def Let_def by auto
    have "c \<noteq> CHR ''P'' \<and> c \<noteq> CHR ''S'' \<and> c \<noteq> CHR ''T''"
      using False by auto
    then show ?thesis using l by simp
  qed
qed

lemma no_capital_in_lower:
  "CHR ''P'' \<notin> set (lower s)" "CHR ''S'' \<notin> set (lower s)" "CHR ''T'' \<notin> set (lower s)"
  unfolding lower_def by (metis imageE list.set_map lower_char_not_capital)+

lemma no_marker_in_lower:
  "\<not> sublist ''Primary tags:'' (lower line)"
  "\<not> sublist ''Secondary tags:'' (lower line)"
  "\<not> sublist ''Trending tags:'' (lower line)"
proof -
  have "CHR ''P'' \<in> set ''Primary tags:''" "CHR ''S'' \<in> set ''Secondary tags:''"
    "CHR ''T'' \<in> set ''Trending tags:''"
    by simp_all
  then show "\<not> sublist ''Primary tags:'' (lower line)"
    "\<not> sublist ''Secondary tags:'' (lower line)"
    "\<not> sublist ''Trending tags:'' (lower line)"
    using no_capital_in_lower [of line] set_mono_sublist by blast+
qed

lemma scan_line_no_section: "scan_line (None, p, s, t) line = (None, p, s, t)"
  by (simp add: no_marker_in_lower)

lemma foldl_scan_line_no_section: "foldl scan_line (None, p, s, t) lines = (None, p, s, t)"
  by (induction lines) (simp_all add: scan_line_no_section del: scan_line.simps)

lemma extract_tags_labelled:
  "sublist ''Primary tags:'' response \<or> sublist ''Secondary tags:'' response \<Longrightarrow>
   extract_tags response = [(''primary'', []), (''secondary'', []), (''trending'', []), (''all'', [])]"
  by (simp add: extract_tags_def foldl_scan_line_no_section del: scan_line.simps)

lemma re_split_last_piece:
  assumes "dropWhile (\<lambda>c. \<not> is_sep c) s = []"
  shows "re_split s = [s]"
  by (subst re_split.simps) (simp only: assms list.case)

lemma re_split_next_piece:
  assumes "dropWhile (\<lambda>c. \<not> is_sep c) s = c # cs"
  shows "re_split s = takeWhile (\<lambda>c. \<not> is_sep c) s # re_split (dropWhile is_sep (c # cs))"
  by (subst re_split.simps) (simp only: assms list.case)

lemma re_split_sep_free: "piece \<in> set (re_split s) \<Longrightarrow> \<forall>c\<in>set piece. \<not> is_sep c"
proof (induction s arbitrary: piece rule: re_split.induct)
  case (1 s)
  show ?case
  proof (cases "dropWhile (\<lambda>c. \<not> is_sep c) s")
    case Nil
    then have "re_split s = [s]" by (rule re_split_last_piece)
    moreover have "\<forall>c\<in>set s. \<not> is_sep c"
      using Nil by (simp add: dropWhile_eq_Nil_conv)
    ultimately show ?thesis using "1.prems" by simp
  next
    case (Cons c cs)
    have r: "re_split s = takeWhile (\<lambda>c. \<not> is_sep c) s # re_split (dropWhile is_sep (c # cs))"
      using Cons by (rule re_split_next_piece)
    have first: "\<forall>c\<in>set (takeWhile (\<lambda>c. \<not> is_sep c) s). \<not> is_sep c"
      using set_takeWhileD [of _ "\<lambda>c. \<not> is_sep c" s] by blast
    have rest: "\<forall>c\<in>set q. \<not> is_sep c" if "q \<in> set (re_split (dropWhile is_sep (c # cs)))" for q
      using "1.IH" [OF Cons] that unfolding Cons by blast
    from "1.prems" have "piece = takeWhile (\<lambda>c. \<not> is_sep c) s
        \<or> piece \<in> set (re_split (dropWhile is_sep (c # cs)))"
      by (simp only: r set_simps insert_iff)
    then show ?thesis
      using first rest by blast
  qed
qed

lemma concat_re_split: "concat (re_split s) = filter (\<lambda>c. \<not> is_sep c) s"
proof (induction s rule: re_split.induct)
  case (1 s)
  show ?case
  proof (cases "dropWhile (\<lambda>c. \<not> is_sep c) s")
    case Nil
    then have "re_split s = [s]" by (rule re_split_last_piece)
    moreover have "\<forall>c\<in>set s. \<not> is_sep c"
      using Nil by (simp add: dropWhile_eq_Nil_conv)
    ultimately show ?thesis by simp
  next
    case (Cons c cs)
    let ?t = "takeWhile (\<lambda>c. \<not> is_sep c) s"
    let ?d = "c # cs"
    have r: "re_split s = ?t # re_split (dropWhile is_sep ?d)"
      using Cons by (rule re_split_next_piece)
    have ih: "concat (re_split (dropWhile is_sep ?d)) = filter (\<lambda>c. \<not> is_sep c) (dropWhile is_sep ?d)"
      using "1.IH" [OF Cons] unfolding Cons .
    have s: "s = ?t @ takeWhile is_sep ?d @ dropWhile is_sep ?d"
      using Cons by (metis takeWhile_dropWhile_id)
    have f1: "filter (\<lambda>c. \<not> is_sep c) ?t = ?t"
      using set_takeWhileD [of _ "\<lambda>c. \<not> is_sep c" s] by (simp add: filter_id_conv)
    have f2: "filter (\<lambda>c. \<not> is_sep c) (takeWhile is_sep ?d) = []"
      using set_takeWhileD [of _ is_sep ?d] by (simp add: filter_empty_conv)
    have "filter (\<lambda>c. \<not> is_sep c) s =
            filter (\<lambda>c. \<not> is_sep c) (?t @ takeWhile is_sep ?d @ dropWhile is_sep ?d)"
      using s by simp
    also have "\<dots> = ?t @ filter (\<lambda>c. \<not> is_sep c) (dropWhile is_sep ?d)"
      unfolding filter_append f1 f2 by simp
    finally show ?thesis
      unfolding r using ih by simp
  qed
qed

lemma weave_starts_with_piece:
  assumes "\<forall>p\<in>set (q # ps). \<forall>c\<in>set p. \<not> is_sep c" and "ps \<noteq> [] \<longrightarrow> q \<noteq> []"
    and "length seps = length ps"
  shows "dropWhile is_sep (weave (q # ps) seps) = weave (q # ps) seps"
proof (cases ps)
  case Nil
  then show ?thesis using assms(1) by (cases q) simp_all
next
  case (Cons q' ps')
  then obtain s seps' where seps: "seps = s # seps'"
    using assms(3) by (cases seps) auto
  obtain c cs where q: "q = c # cs" using assms(2) Cons by (cases q) auto
  have "\<not> is_sep c" using assms(1) q by simp
  then show ?thesis unfolding Cons seps q by simp
qed

lemma re_split_weave:
  assumes "ps \<noteq> []" and "length seps + 1 = length ps"
    and "\<forall>p\<in>set ps. \<forall>c\<in>set p. \<not> is_sep c"
    and "\<forall>s\<in>set seps. s \<noteq> [] \<and> (\<forall>c\<in>set s. is_sep c)"
    and "\<forall>p\<in>set (butlast (tl ps)). p \<noteq> []"
  shows "re_split (weave ps seps) = ps"
  using assms
proof (induction ps seps rule: weave.induct)
  case (1 seps)
  then show ?case by simp
next
  case (2 p seps)
  have "dropWhile (\<lambda>c. \<not> is_sep c) p = []"
    using "2.prems"(3) by (simp add: dropWhile_eq_Nil_conv)
  then show ?case by (simp add: re_split_last_piece)
next
  case (3 p q ps)
  then show ?case by simp
next
  case (4 p q ps s seps)
  let ?w = "weave (q # ps) seps"
  have p: "\<forall>c\<in>set p. \<not> is_sep c" using "4.prems"(3) by simp
  obtain c cs where s: "s = c # cs" using "4.prems"(4) by (cases s) auto
  have sep: "is_sep c" "\<forall>x\<in>set s. is_sep x" using "4.prems"(4) s by auto
  have dw: "dropWhile (\<lambda>c. \<not> is_sep c) (p @ s @ ?w) = c # (cs @ ?w)"
    using p sep(1) s by (simp add: dropWhile_append2)
  have tw: "takeWhile (\<lambda>c. \<not> is_sep c) (p @ s @ ?w) = p"
    using p sep(1) s by (simp add: takeWhile_append2)
  have interior: "ps \<noteq> [] \<longrightarrow> q \<noteq> []"
    using "4.prems"(5) by auto
  have "dropWhile is_sep (c # (cs @ ?w)) = dropWhile is_sep (s @ ?w)"
    using s by simp
  also have "\<dots> = dropWhile is_sep ?w"
    using sep(2) by (simp add: dropWhile_append2)
  also have "\<dots> = ?w"
    using "4.prems"(2,3) interior by (intro weave_starts_with_piece) auto
  finally have rest: "dropWhile is_sep (c # (cs @ ?w)) = ?w" .
  have ih: "re_split ?w = q # ps"
  proof (rule "4.IH")
    show "q # ps \<noteq> []" by simp
    show "length seps + 1 = length (q # ps)" using "4.prems"(2) by simp
    show "\<forall>p\<in>set (q # ps). \<forall>c\<in>set p. \<not> is_sep c" using "4.prems"(3) by simp
    show "\<forall>s\<in>set seps. s \<noteq> [] \<and> (\<forall>c\<in>set s. is_sep c)" using "4.prems"(4) by simp
    show "\<forall>p\<in>set (butlast (tl (q # ps))). p \<noteq> []"
      using "4.prems"(5) by (cases "ps = []") auto
  qed
  have "re_split (p @ s @ ?w) = p # re_split ?w"
    using re_split_next_piece [OF dw] unfolding tw rest .
  then show ?case using ih by simp
qed

text \<open>
  Claim C1 does not hold of the code. The loop tests the capitalised markers against
  the lower-cased line, so no line ever opens a section. For the response with one
  marker per line and the tags of each section on the line after it, the four lists
  come back empty, where the claim has a, b / c / d, e and all five under "all". The
  response of the specification, with the tags on the marker lines, gives four empty
  lists as well.
\<close>

theorem extract_tags_sections_stay_empty:
  "extract_tags section_tags_response =
     [(''primary'', []), (''secondary'', []), (''trending'', []), (''all'', [])]
   \<and> extract_tags section_tags_response \<noteq>
     [(''primary'', [''a'', ''b'']), (''secondary'', [''c'']), (''trending'', [''d'', ''e'']),
      (''all'', [''a'', ''b'', ''c'', ''d'', ''e''])]
   \<and> extract_tags spec_tags_response =
     [(''primary'', []), (''secondary'', []), (''trending'', []), (''all'', [])]"
proof -
  have "sublist ''Primary tags:'' section_tags_response"
    by code_simp
  then have a: "extract_tags section_tags_response =
      [(''primary'', []), (''secondary'', []), (''trending'', []), (''all'', [])]"
    by (intro extract_tags_labelled) simp
  have "sublist ''Primary tags:'' spec_tags_response"
    by code_simp
  then have b: "extract_tags spec_tags_response =
      [(''primary'', []), (''secondary'', []), (''trending'', []), (''all'', [])]"
    by (intro extract_tags_labelled) simp
  show ?thesis
    unfolding a b by simp
qed


text \<open>
  Claim C6: for a response without section markers, \<open>extract_tags\<close> returns the one key
  "all". Its list holds, in their order, the first twenty of the trimmed pieces of the
  response whose trimmed length is above 2 and below 30, the pieces being those between
  the runs of commas, semicolons and pipes: no piece holds a separator, and together
  they are the response without its separators.
\<close>

theorem extract_tags_fallback:
  assumes "\<not> sublist ''Primary tags:'' response" and "\<not> sublist ''Secondary tags:'' response"
    and "\<not> sublist ''Trending tags:'' response"
  shows "extract_tags response =
           [(''all'', take 20 (map strip
               (filter (\<lambda>tag. 2 < length (strip tag) \<and> length (strip tag) < 30)
                  (re_split response))))]
       \<and> map fst (extract_tags response) = [''all'']
       \<and> (\<forall>piece\<in>set (re_split response). \<forall>c\<in>set piece. \<not> is_sep c)
       \<and> concat (re_split response) = filter (\<lambda>c. \<not> is_sep c) response
       \<and> length (dict_get (extract_tags response) ''all'' []) \<le> 20
       \<and> (\<forall>tag\<in>set (dict_get (extract_tags response) ''all'' []).
            2 < length tag \<and> length tag < 30 \<and> strip tag = tag)"
proof -
  let ?kept = "take 20 (map strip
     (filter (\<lambda>tag. 2 < length (strip tag) \<and> length (strip tag) < 30) (re_split response)))"
  have e: "extract_tags response = [(''all'', ?kept)]"
    using assms(1,2) by (simp add: extract_tags_def)
  have k: "2 < length tag \<and> length tag < 30 \<and> strip tag = tag" if "tag \<in> set ?kept" for tag
  proof -
    from that have "tag \<in> set (map strip
        (filter (\<lambda>tag. 2 < length (strip tag) \<and> length (strip tag) < 30) (re_split response)))"
      by (rule in_set_takeD)
    then obtain piece where "tag = strip piece" "2 < length (strip piece)"
      "length (strip piece) < 30"
      by auto
    then show ?thesis by (simp add: strip_idem)
  qed
  have g: "dict_get (extract_tags response) ''all'' [] = ?kept"
    unfolding e by (simp add: dict_get_def)
  have c1: "map fst (extract_tags response) = [''all'']"
    unfolding e by simp
  have c2: "\<forall>piece\<in>set (re_split response). \<forall>c\<in>set piece. \<not> is_sep c"
    using re_split_sep_free by blast
  have c3: "concat (re_split response) = filter (\<lambda>c. \<not> is_sep c) response"
    by (rule concat_re_split)
  have c4: "length ?kept \<le> 20"
    by simp
  have c5: "\<forall>tag\<in>set ?kept. 2 < length tag \<and> length tag < 30 \<and> strip tag = tag"
    using k by blast
  show ?thesis
    unfolding g by (intro conjI) (rule e c1 c2 c3 c4 c5)+
qed

theorem extract_tags_fallback_witness:
  "\<not> sublist ''Primary tags:'' plain_tags_response
   \<and> \<not> sublist ''Secondary tags:'' plain_tags_response
   \<and> \<not> sublist ''Trending tags:'' plain_tags_response
   \<and> extract_tags plain_tags_response =
       [(''all'', [''validtagname'', ''abc'', ''aaaaaaaaaaaaaaaaaaaaaaaaaaaaa''])]"
proof -
  have h1: "\<not> sublist ''Primary tags:'' plain_tags_response" by code_simp
  have h2: "\<not> sublist ''Secondary tags:'' plain_tags_response" by code_simp
  have h3: "\<not> sublist ''Trending tags:'' plain_tags_response" by code_simp
  have rhs: "take 20 (map strip
               (filter (\<lambda>tag. 2 < length (strip tag) \<and> length (strip tag) < 30)
                  (re_split plain_tags_response))) =
       [''validtagname'', ''abc'', ''aaaaaaaaaaaaaaaaaaaaaaaaaaaaa'']"
    by code_simp
  from extract_tags_fallback [OF h1 h2 h3]
  have "extract_tags plain_tags_response =
           [(''all'', take 20 (map strip
               (filter (\<lambda>tag. 2 < length (strip tag) \<and> length (strip tag) < 30)
                  (re_split plain_tags_response))))]"
    by blast
  then have "extract_tags plain_tags_response =
       [(''all'', [''validtagname'', ''abc'', ''aaaaaaaaaaaaaaaaaaaaaaaaaaaaa''])]"
    unfolding rhs .
  then show ?thesis
    by (intro conjI) (rule h1 h2 h3, rule h2, rule h3)
qed

section \<open>Properties of the content analyzer\<close>

lemma set_first_seen: "set (first_seen xs) = set xs"
  by (induction xs) auto

lemma distinct_first_seen: "distinct (first_seen xs)"
  by (induction xs) (simp_all add: distinct_removeAll)

lemma first_index_Cons:
  "first_index (x # xs) a = (if a = x then 0 else Suc (first_index xs a))"
  by (auto simp add: first_index_def)

lemma sorted_wrt_first_seen:
  "sorted_wrt (\<lambda>a b. first_index xs a < first_index xs b) (first_seen (filter P xs))"
proof (induction xs)
  case Nil
  show ?case by simp
next
  case (Cons x xs)
  let ?ys = "first_seen (filter P xs)"
  have x: "sorted_wrt (\<lambda>a b. first_index (x # xs) a < first_index (x # xs) b) (removeAll x ?ys)"
  proof -
    have "sorted_wrt (\<lambda>a b. first_index xs a < first_index xs b) (removeAll x ?ys)"
      using Cons by (simp add: removeAll_filter_not_eq sorted_wrt_filter)
    then show ?thesis
      by (rule sorted_wrt_mono_rel [rotated]) (auto simp add: first_index_Cons)
  qed
  show ?case
  proof (cases "P x")
    case True
    have "\<forall>b\<in>set (removeAll x ?ys). first_index (x # xs) x < first_index (x # xs) b"
      by (auto simp add: first_index_Cons)
    then show ?thesis using True x by simp
  next
    case False
    then have "x \<notin> set ?ys" by (simp add: set_first_seen)
    then have "removeAll x ?ys = ?ys" by simp
    then show ?thesis using False x by simp
  qed
qed

lemma keys_update:
  "map fst (AList.update k v al) = (if k \<in> set (map fst al) then map fst al else map fst al @ [k])"
  by (induction al) auto

lemma filter_removeAll_member:
  "w \<in> A \<Longrightarrow> filter (\<lambda>x. x \<notin> A) (removeAll w F) = filter (\<lambda>x. x \<notin> A) F"
  by (induction F) auto

lemma filter_removeAll_snoc:
  "filter (\<lambda>x. x \<notin> set (ks @ [w])) F = filter (\<lambda>x. x \<notin> set ks) (removeAll w F)"
  by (induction F) auto

lemma count_words_keys:
  "map fst (count_words ws acc) =
     map fst acc @ filter (\<lambda>w. w \<notin> set (map fst acc)) (first_seen (filter (\<lambda>w. 3 < length w) ws))"
proof (induction ws arbitrary: acc)
  case Nil
  show ?case by simp
next
  case (Cons w ws)
  let ?F = "first_seen (filter (\<lambda>w. 3 < length w) ws)"
  show ?case
  proof (cases "3 < length w")
    case False
    then show ?thesis using Cons by simp
  next
    case True
    let ?acc = "AList.update w (dict_get acc w 0 + 1) acc"
    have ih: "map fst (count_words ws ?acc) =
        map fst ?acc @ filter (\<lambda>x. x \<notin> set (map fst ?acc)) ?F"
      by (rule Cons)
    show ?thesis
    proof (cases "w \<in> set (map fst acc)")
      case True
      then have k: "map fst ?acc = map fst acc" by (simp add: keys_update)
      have "filter (\<lambda>x. x \<notin> set (map fst acc)) (removeAll w ?F)
          = filter (\<lambda>x. x \<notin> set (map fst acc)) ?F"
        using True by (rule filter_removeAll_member)
      then show ?thesis
        using \<open>3 < length w\<close> True ih unfolding k by simp
    next
      case False
      then have k: "map fst ?acc = map fst acc @ [w]" by (simp add: keys_update)
      have "filter (\<lambda>x. x \<notin> set (map fst acc @ [w])) ?F
          = filter (\<lambda>x. x \<notin> set (map fst acc)) (removeAll w ?F)"
        by (rule filter_removeAll_snoc)
      then show ?thesis
        using \<open>3 < length w\<close> False ih unfolding k by simp
    qed
  qed
qed

lemma count_words_lookup:
  "map_of (count_words ws acc) w =
     (if 3 < length w \<and> w \<in> set ws then Some (dict_get acc w 0 + count_list ws w)
      else map_of acc w)"
proof (induction ws arbitrary: acc)
  case Nil
  show ?case by simp
next
  case (Cons x ws)
  show ?case
  proof (cases "3 < length x")
    case False
    then show ?thesis using Cons by auto
  next
    case True
    let ?acc = "AList.update x (dict_get acc x 0 + 1) acc"
    have g: "dict_get ?acc w 0 = (if w = x then dict_get acc x 0 + 1 else dict_get acc w 0)"
      by (simp add: dict_get_def update_conv')
    have ih: "map_of (count_words ws ?acc) w =
       (if 3 < length w \<and> w \<in> set ws then Some (dict_get ?acc w 0 + count_list ws w)
        else map_of ?acc w)"
      by (rule Cons)
    show ?thesis
      using True ih g by (auto simp add: update_conv' dict_get_def)
  qed
qed

lemma alist_by_keys:
  "(\<forall>p\<in>set al. snd p = f (fst p)) \<Longrightarrow> al = map (\<lambda>k. (k, f k)) (map fst al)"
  by (induction al) auto

lemma count_words_table:
  "count_words ws [] =
     map (\<lambda>w. (w, count_list ws w)) (first_seen (filter (\<lambda>w. 3 < length w) ws))"
proof -
  let ?al = "count_words ws []"
  let ?F = "first_seen (filter (\<lambda>w. 3 < length w) ws)"
  have keys: "map fst ?al = ?F"
    using count_words_keys [of ws "[]"] by simp
  then have d: "distinct (map fst ?al)"
    by (simp add: distinct_first_seen)
  have "snd p = count_list ws (fst p)" if p: "p \<in> set ?al" for p
  proof -
    have "map_of ?al (fst p) = Some (snd p)"
      using d p by (cases p) simp
    then show ?thesis
      using count_words_lookup [of ws "[]" "fst p"] by (simp add: dict_get_def split: if_splits)
  qed
  then have "?al = map (\<lambda>k. (k, count_list ws k)) (map fst ?al)"
    by (intro alist_by_keys) blast
  then show ?thesis
    unfolding keys .
qed

lemma sorted_key_ties:
  fixes f :: "'a \<Rightarrow> 'k::linorder"
  shows "sorted (map f ys) \<Longrightarrow> (\<And>k. sorted_wrt Q (filter (\<lambda>y. f y = k) ys)) \<Longrightarrow>
     sorted_wrt (\<lambda>a b. f a < f b \<or> (f a = f b \<and> Q a b)) ys"
proof (induction ys)
  case Nil
  show ?case by simp
next
  case (Cons y ys)
  have tail: "sorted_wrt Q (filter (\<lambda>z. f z = k) ys)" for k
    using Cons.prems(2) [of k] by (cases "f y = k") simp_all
  have rest: "sorted_wrt (\<lambda>a b. f a < f b \<or> (f a = f b \<and> Q a b)) ys"
    using Cons.IH Cons.prems(1) tail by simp
  have "f y < f z \<or> (f y = f z \<and> Q y z)" if z: "z \<in> set ys" for z
  proof (cases "f y = f z")
    case True
    have "sorted_wrt Q (y # filter (\<lambda>x. f x = f y) ys)"
      using Cons.prems(2) [of "f y"] by simp
    then show ?thesis using True z by simp
  next
    case False
    then show ?thesis using Cons.prems(1) z by fastforce
  qed
  then show ?case using rest by simp
qed

lemma sorted_reverse_order:
  fixes f :: "'a \<Rightarrow> 'k::linorder"
  assumes "sorted_wrt Q xs"
  shows "sorted_wrt (\<lambda>a b. f b < f a \<or> (f a = f b \<and> Q a b)) (sorted_reverse f xs)"
proof -
  let ?ys = "sort_key f (rev xs)"
  have s: "sorted (map f ?ys)" by (rule sorted_sort_key)
  have t: "sorted_wrt (\<lambda>a b. Q b a) (filter (\<lambda>y. f y = k) ?ys)" for k
  proof -
    have "filter (\<lambda>y. f y = k) ?ys = rev (filter (\<lambda>y. f y = k) xs)"
      by (simp add: sort_key_stable rev_filter)
    moreover have "sorted_wrt Q (filter (\<lambda>y. f y = k) xs)"
      using assms by (rule sorted_wrt_filter)
    ultimately show ?thesis by (simp add: sorted_wrt_rev)
  qed
  have "sorted_wrt (\<lambda>a b. f a < f b \<or> (f a = f b \<and> Q b a)) ?ys"
    using s t by (rule sorted_key_ties)
  then have "sorted_wrt (\<lambda>b a. f a < f b \<or> (f a = f b \<and> Q b a)) (rev ?ys)"
    by (simp add: sorted_wrt_rev)
  then show ?thesis
    unfolding sorted_reverse_def by (rule sorted_wrt_mono_rel [rotated]) auto
qed

lemma set_sorted_reverse: "set (sorted_reverse f xs) = set xs"
  by (simp add: sorted_reverse_def)

lemma distinct_keys_sorted_reverse:
  fixes f :: "'a \<times> 'b \<Rightarrow> 'k::linorder"
  shows "distinct (map fst xs) \<Longrightarrow> distinct (map fst (sorted_reverse f xs))"
  by (simp add: distinct_map sorted_reverse_def)

lemma top_keywords_ranking:
  fixes content :: string
  defines "ws \<equiv> py_split (lower content)"
  defines "ranking \<equiv> sorted_reverse snd (count_words ws [])"
  shows "top_keywords (analyze_content_metrics content) = take 10 ranking"
    and "set (map fst ranking) = {w \<in> set ws. 3 < length w}"
    and "distinct (map fst ranking)"
    and "\<forall>p\<in>set ranking. snd p = count_list ws (fst p)"
    and "sorted_wrt (\<lambda>a b. snd b < snd a
           \<or> (snd a = snd b \<and> first_index ws (fst a) < first_index ws (fst b))) ranking"
proof -
  let ?F = "first_seen (filter (\<lambda>w. 3 < length w) ws)"
  let ?items = "map (\<lambda>w. (w, count_list ws w)) ?F"
  have items: "count_words ws [] = ?items" by (rule count_words_table)
  have keys: "map fst ?items = ?F" by (simp add: comp_def)
  show "top_keywords (analyze_content_metrics content) = take 10 ranking"
    by (simp add: analyze_content_metrics_def Let_def ranking_def ws_def)
  have "set (map fst ranking) = set (map fst ?items)"
    unfolding ranking_def items by (simp only: set_map set_sorted_reverse)
  then show "set (map fst ranking) = {w \<in> set ws. 3 < length w}"
    unfolding keys by (simp add: set_first_seen)
  have "distinct (map fst ?items)"
    unfolding keys by (rule distinct_first_seen)
  then show "distinct (map fst ranking)"
    unfolding ranking_def items by (rule distinct_keys_sorted_reverse)
  show "\<forall>p\<in>set ranking. snd p = count_list ws (fst p)"
    unfolding ranking_def items set_sorted_reverse by auto
  have "sorted_wrt (\<lambda>a b. first_index ws a < first_index ws b) ?F"
    by (rule sorted_wrt_first_seen)
  then have "sorted_wrt (\<lambda>a b. first_index ws (fst a) < first_index ws (fst b)) ?items"
    by (simp add: sorted_wrt_map)
  then show "sorted_wrt (\<lambda>a b. snd b < snd a
           \<or> (snd a = snd b \<and> first_index ws (fst a) < first_index ws (fst b))) ranking"
    unfolding ranking_def items by (rule sorted_reverse_order)
qed

text \<open>
  Claim C8: for every text, the reading time is \<open>max 1 (word_count div 200)\<close>, so it is at
  least 1 when there is a word and exactly 1 up to 200 words. The top keywords are at
  most ten pairs of a word and its count; each word is a lower-cased white-space token
  longer than 3 characters, with the number of its occurrences. They are the first ten
  of the ranking of all such words, each once, by falling count, words of equal count
  in the order in which they are first met.
\<close>

theorem analyze_content_metrics_spec:
  "let m = analyze_content_metrics content; ws = py_split (lower content)
   in word_count m = length (py_split content)
    \<and> char_count m = length content
    \<and> reading_time m = max 1 (word_count m div 200)
    \<and> (0 < word_count m \<longrightarrow> 1 \<le> reading_time m)
    \<and> (word_count m \<le> 200 \<longrightarrow> reading_time m = 1)
    \<and> length (top_keywords m) \<le> 10
    \<and> (\<forall>p\<in>set (top_keywords m).
          fst p \<in> set ws \<and> 3 < length (fst p) \<and> snd p = count_list ws (fst p))
    \<and> sorted_wrt (\<lambda>a b. snd b < snd a
          \<or> (snd a = snd b \<and> first_index ws (fst a) < first_index ws (fst b))) (top_keywords m)
    \<and> (\<exists>ranking. top_keywords m = take 10 ranking
          \<and> set (map fst ranking) = {w \<in> set ws. 3 < length w}
          \<and> distinct (map fst ranking)
          \<and> (\<forall>p\<in>set ranking. snd p = count_list ws (fst p))
          \<and> sorted_wrt (\<lambda>a b. snd b < snd a
               \<or> (snd a = snd b \<and> first_index ws (fst a) < first_index ws (fst b))) ranking)"
proof -
  let ?m = "analyze_content_metrics content"
  let ?ws = "py_split (lower content)"
  let ?r = "sorted_reverse snd (count_words ?ws [])"
  let ?R = "\<lambda>a b :: string \<times> nat. snd b < snd a
          \<or> (snd a = snd b \<and> first_index ?ws (fst a) < first_index ?ws (fst b))"
  note r = top_keywords_ranking [of content]
  have wc: "word_count ?m = length (py_split content)"
    and cc: "char_count ?m = length content"
    and rt: "reading_time ?m = max 1 (word_count ?m div 200)"
    by (simp_all add: analyze_content_metrics_def Let_def)
  have rt1: "0 < word_count ?m \<longrightarrow> 1 \<le> reading_time ?m"
    unfolding rt by simp
  have rt2: "word_count ?m \<le> 200 \<longrightarrow> reading_time ?m = 1"
  proof
    assume "word_count ?m \<le> 200"
    then have "word_count ?m div 200 \<le> 1"
      by (metis div_le_mono div_self zero_neq_numeral)
    then show "reading_time ?m = 1" unfolding rt by simp
  qed
  have len: "length (top_keywords ?m) \<le> 10"
    unfolding r(1) by simp
  have sub: "set (top_keywords ?m) \<subseteq> set ?r"
    unfolding r(1) by (rule set_take_subset)
  have each: "\<forall>p\<in>set (top_keywords ?m).
      fst p \<in> set ?ws \<and> 3 < length (fst p) \<and> snd p = count_list ?ws (fst p)"
  proof
    fix p assume "p \<in> set (top_keywords ?m)"
    then have p: "p \<in> set ?r" using sub by blast
    then have "fst p \<in> set (map fst ?r)" by simp
    then have "fst p \<in> set ?ws \<and> 3 < length (fst p)"
      unfolding r(2) by simp
    then show "fst p \<in> set ?ws \<and> 3 < length (fst p) \<and> snd p = count_list ?ws (fst p)"
      using r(4) p by blast
  qed
  have srt: "sorted_wrt ?R (top_keywords ?m)"
    unfolding r(1) using r(5) by (rule sorted_wrt_take)
  have ex: "\<exists>ranking. top_keywords ?m = take 10 ranking
          \<and> set (map fst ranking) = {w \<in> set ?ws. 3 < length w}
          \<and> distinct (map fst ranking)
          \<and> (\<forall>p\<in>set ranking. snd p = count_list ?ws (fst p))
          \<and> sorted_wrt ?R ranking"
    using r by (intro exI [of _ ?r]) blast
  show ?thesis
    unfolding Let_def by (intro conjI) (rule wc cc rt rt1 rt2 len each srt ex)+
qed

theorem analyze_content_metrics_spec_witness:
  "0 < word_count (analyze_content_metrics keyword_sample)
   \<and> word_count (analyze_content_metrics keyword_sample) \<le> 200
   \<and> reading_time (analyze_content_metrics keyword_sample) = 1
   \<and> top_keywords (analyze_content_metrics keyword_sample) =
       [(''over'', 3), (''quick'', 2), (''dogs'', 2), (''brown'', 1), (''jumps'', 1),
        (''lazy'', 1)]
   \<and> sorted_wrt (\<lambda>a b. snd b < snd a
          \<or> (snd a = snd b
              \<and> first_index (py_split (lower keyword_sample)) (fst a)
                  < first_index (py_split (lower keyword_sample)) (fst b)))
        [(''over'', 3::nat), (''quick'', 2), (''dogs'', 2), (''brown'', 1), (''jumps'', 1),
         (''lazy'', 1)]"
proof -
  have w: "word_count (analyze_content_metrics keyword_sample) \<le> 200"
    by code_simp
  have p: "0 < word_count (analyze_content_metrics keyword_sample)"
    by code_simp
  have k: "top_keywords (analyze_content_metrics keyword_sample) =
       [(''over'', 3), (''quick'', 2), (''dogs'', 2), (''brown'', 1), (''jumps'', 1),
        (''lazy'', 1)]"
    by code_simp
  note s = analyze_content_metrics_spec [of keyword_sample, unfolded Let_def]
  have r: "reading_time (analyze_content_metrics keyword_sample) = 1"
    using s w by blast
  have o: "sorted_wrt (\<lambda>a b. snd b < snd a
          \<or> (snd a = snd b
              \<and> first_index (py_split (lower keyword_sample)) (fst a)
                  < first_index (py_split (lower keyword_sample)) (fst b)))
        (top_keywords (analyze_content_metrics keyword_sample))"
    using s by blast
  show ?thesis
    using p w r k o [unfolded k] by (intro conjI)
qed

section \<open>The run has no failing step\<close>

text \<open>
  With three attempts the client always returns a string, so no step of a run ends
  it, and the banner is never the one of the \<open>except\<close> branch.
\<close>

lemma py_range_three: "py_range 3 = [0, 1, 2]"
  by code_simp

lemma call_gemini_default_returns:
  "\<exists>r log'. call_gemini_with_retry model prompt 3 log = (Some r, log')"
  unfolding call_gemini_with_retry_def py_range_three
  by (simp split: outcome.split)

lemma step_never_raises:
  "\<exists>s'. titles_step model f s = Inr s'" "\<exists>s'. description_step model f s = Inr s'"
  "\<exists>s'. tags_step model f s = Inr s'" "\<exists>s'. thumbnail_step model f s = Inr s'"
proof -
  obtain st log where s: "s = (st, log)" by (cases s)
  have c: "\<exists>r log'. call_gemini_with_retry model p 3 log = (Some r, log')" for p
    by (rule call_gemini_default_returns)
  show "\<exists>s'. titles_step model f s = Inr s'"
    using c [of "create_title_prompt (video_script f) (video_type f) (target_audience f)
                  (keywords f) (tone f) (style_preferences f)"]
    by (auto simp add: titles_step_def s Let_def)
  show "\<exists>s'. description_step model f s = Inr s'"
    using c [of "create_description_prompt (video_script f) (video_type f)
                  (target_audience f) (keywords f) (channel_info f) (video_length f)"]
    by (auto simp add: description_step_def s Let_def)
  show "\<exists>s'. tags_step model f s = Inr s'"
    using c [of "create_tags_prompt (video_script f) (video_type f) (keywords f)
                  (competitor_analysis f)"]
    by (auto simp add: tags_step_def s Let_def)
  show "\<exists>s'. thumbnail_step model f s = Inr s'"
    using c [of "create_thumbnail_prompt (video_script f) (video_type f) (target_audience f)"]
    by (auto simp add: thumbnail_step_def s Let_def)
qed


lemma generate_content_no_generation_error:
  "fst (generate_content model now sb f s) \<noteq> Generation_error"
proof -
  obtain st log where s: "s = (st, log)" by (cases s)
  let ?st1 = "if include_analytics sb
              then st\<lparr>content_metrics := Some (analyze_content_metrics (video_script f))\<rparr>
              else st"
  obtain a where a: "titles_step model f (?st1, log) = Inr a"
    using step_never_raises(1) by blast
  obtain b where b: "description_step model f a = Inr b"
    using step_never_raises(2) by blast
  obtain c where c: "tags_step model f b = Inr c"
    using step_never_raises(3) by blast
  obtain d where d: "thumbnail_step model f c = Inr d"
    using step_never_raises(4) by blast
  have e: "and_then (and_then (and_then (titles_step model f (?st1, log))
             (description_step model f)) (tags_step model f)) (thumbnail_step model f) = Inr d"
    by (simp only: and_then_def a b c d sum.case)
  obtain st2 log2 where d2: "d = (st2, log2)" by (cases d)
  show ?thesis
    unfolding generate_content_def s Let_def prod.case e d2 by simp
qed

lemma extract_titles_at_most_eight: "length (extract_titles response) \<le> 8"
  by (simp add: extract_titles_def)

end
